theory Spec2Isabelle
  imports Complex_Main "HOL-Library.Sublist" "HOL-Library.Multiset" "HOL-Library.Product_Lexorder"
begin

section \<open>Strings and arrays of the JavaScript runtime\<close>

text \<open>
  A JavaScript string is modelled as a \<^typ>\<open>string\<close>, one \<^typ>\<open>char\<close> per code unit;
  the texts of the data set are ASCII. \<open>String.prototype.toLowerCase\<close> maps the
  letters \<open>A\<close> to \<open>Z\<close> to \<open>a\<close> to \<open>z\<close> and leaves every other ASCII character alone.
  No proof below uses more of \<open>toLowerCase\<close> than that it is a function on strings.
\<close>

definition lower_char :: "char \<Rightarrow> char" where
  "lower_char c =
     (let n = (of_char c :: nat) in if 65 \<le> n \<and> n \<le> 90 then char_of (n + 32) else c)"

definition toLowerCase :: "string \<Rightarrow> string" where
  "toLowerCase s = map lower_char s"

text \<open>\<open>s.includes(t)\<close>: \<open>t\<close> occurs in \<open>s\<close> as a run of consecutive characters.\<close>

fun str_includes :: "string \<Rightarrow> string \<Rightarrow> bool" where
  "str_includes [] t = (t = [])"
| "str_includes (c # s) t = (prefix t (c # s) \<or> str_includes s t)"

text \<open>\<open>parts.join(sep)\<close> on an array of strings.\<close>

fun join :: "string list \<Rightarrow> string \<Rightarrow> string" where
  "join [] sep = []"
| "join [x] sep = x"
| "join (x # y # ys) sep = x @ sep @ join (y # ys) sep"

text \<open>
  \<open>xs.slice(start, stop)\<close> on integer arguments: a negative index counts from the end
  of the array, both indices are clamped to the array, and an empty range gives the
  empty array.
\<close>

definition slice :: "'a list \<Rightarrow> int \<Rightarrow> int \<Rightarrow> 'a list" where
  "slice xs start stop =
     (let len = int (length xs);
          k = (if start < 0 then max (len + start) 0 else min start len);
          final = (if stop < 0 then max (len + stop) 0 else min stop len)
      in take (nat (final - k)) (drop (nat k) xs))"

text \<open>
  \<open>xs.sort(compare)\<close>: the comparator returns a number, \<open>None\<close> standing for \<open>NaN\<close>,
  which the sort reads as \<open>0\<close>. The sort is stable: an element moves behind another
  only if the comparator says so with a positive number. It is written as insertion
  from the right end of the array.
\<close>

definition goes_after :: "int option \<Rightarrow> bool" where
  "goes_after v = (case v of None \<Rightarrow> False | Some n \<Rightarrow> 0 < n)"

fun insert_sorted :: "('a \<Rightarrow> 'a \<Rightarrow> int option) \<Rightarrow> 'a \<Rightarrow> 'a list \<Rightarrow> 'a list" where
  "insert_sorted compare x [] = [x]"
| "insert_sorted compare x (y # ys) =
     (if goes_after (compare x y) then y # insert_sorted compare x ys else x # y # ys)"

fun sort_with :: "('a \<Rightarrow> 'a \<Rightarrow> int option) \<Rightarrow> 'a list \<Rightarrow> 'a list" where
  "sort_with compare [] = []"
| "sort_with compare (x # xs) = insert_sorted compare x (sort_with compare xs)"

text \<open>
  A \<open>Set<string>\<close> keeps its members in insertion order; \<open>add\<close> of a member already
  present changes nothing.
\<close>

definition set_add :: "string \<Rightarrow> string list \<Rightarrow> string list" where
  "set_add x s = (if x \<in> set s then s else s @ [x])"

text \<open>The decimal text of an integer, as a template literal prints a number.\<close>

fun digits :: "nat \<Rightarrow> string" where
  "digits n =
     (if n < 10 then [char_of (48 + n)] else digits (n div 10) @ [char_of (48 + n mod 10)])"

definition number_text :: "int \<Rightarrow> string" where
  "number_text i = (if i < 0 then CHR ''-'' # digits (nat (- i)) else digits (nat i))"

section \<open>The search service (\<open>services/api.ts\<close>)\<close>

text \<open>The field \<open>id\<close> of a search result is called \<open>ident\<close> here.\<close>

record SearchResult =
  ident :: string
  title :: string
  description :: string
  category :: string
  tags :: "string list"
  url :: string
  author :: string
  date :: string

record SearchResponse =
  results :: "SearchResult list"
  total :: nat
  query :: string
  took :: real

text \<open>\<open>SearchParams\<close>: \<open>limit\<close> and \<open>offset\<close> are optional.\<close>

record SearchParams =
  p_query :: string
  p_limit :: "int option"
  p_offset :: "int option"

subsection \<open>\<open>filterResults\<close>\<close>

definition searchText :: "SearchResult \<Rightarrow> string" where
  "searchText r =
     toLowerCase (title r @ '' '' @ description r @ '' '' @ category r @ '' ''
                  @ join (tags r) '' '' @ '' '' @ author r)"

definition filterResults :: "SearchResult list \<Rightarrow> string \<Rightarrow> SearchResult list" where
  "filterResults rs q =
     (let queryLower = toLowerCase q in filter (\<lambda>r. str_includes (searchText r) queryLower) rs)"

subsection \<open>\<open>sortResults\<close>\<close>

text \<open>
  \<open>new Date(s).getTime()\<close> is a parameter \<open>getTime\<close> of the model: the time value of
  the string in milliseconds, or \<open>None\<close> (\<open>NaN\<close>) when the string is not a date.
\<close>

definition titleMatch :: "string \<Rightarrow> SearchResult \<Rightarrow> bool" where
  "titleMatch queryLower r = str_includes (toLowerCase (title r)) queryLower"

definition categoryMatch :: "string \<Rightarrow> SearchResult \<Rightarrow> bool" where
  "categoryMatch queryLower r = str_includes (toLowerCase (category r)) queryLower"

definition time_diff :: "int option \<Rightarrow> int option \<Rightarrow> int option" where
  "time_diff x y = (case (x, y) of (Some m, Some n) \<Rightarrow> Some (m - n) | _ \<Rightarrow> None)"

definition compareResults ::
  "(string \<Rightarrow> int option) \<Rightarrow> string \<Rightarrow> SearchResult \<Rightarrow> SearchResult \<Rightarrow> int option" where
  "compareResults getTime queryLower a b =
     (let aTitleMatch = titleMatch queryLower a; bTitleMatch = titleMatch queryLower b in
      if aTitleMatch \<and> \<not> bTitleMatch then Some (- 1)
      else if \<not> aTitleMatch \<and> bTitleMatch then Some 1
      else
        let aCategoryMatch = categoryMatch queryLower a;
            bCategoryMatch = categoryMatch queryLower b in
        if aCategoryMatch \<and> \<not> bCategoryMatch then Some (- 1)
        else if \<not> aCategoryMatch \<and> bCategoryMatch then Some 1
        else time_diff (getTime (date b)) (getTime (date a)))"

definition sortResults ::
  "(string \<Rightarrow> int option) \<Rightarrow> SearchResult list \<Rightarrow> string \<Rightarrow> SearchResult list" where
  "sortResults getTime rs q = sort_with (compareResults getTime (toLowerCase q)) rs"

subsection \<open>What \<open>fetch\<close> delivers\<close>

text \<open>
  A thrown value is an \<open>Error\<close> with its message, or some other value. The outcome of
  \<open>fetch(baseUrl)\<close> followed by \<open>response.json()\<close> is an input of the model: the
  promise rejects (network failure, abort), or a response arrives with its status and
  with what reading \<open>data.searchResults\<close> from its body gives, which is the data set
  or a thrown value (no JSON, no such array).
\<close>

datatype thrown = Error string | NotAnError

datatype fetched = Rejected thrown | Response nat "thrown + SearchResult list"

definition response_ok :: "nat \<Rightarrow> bool" where
  "response_ok status = (200 \<le> status \<and> status \<le> 299)"

definition fetch_searchResults :: "fetched \<Rightarrow> thrown + SearchResult list" where
  "fetch_searchResults f =
     (case f of
        Rejected e \<Rightarrow> Inl e
      | Response status body \<Rightarrow>
          if \<not> response_ok status
          then Inl (Error (''HTTP error! status: '' @ number_text (int status)))
          else body)"

text \<open>
  The \<open>catch\<close> block of the three service methods. The optional \<open>signal\<close> is \<open>None\<close>
  when the caller passed none, and otherwise holds its \<open>aborted\<close> flag as read there.
\<close>

definition rethrow :: "bool option \<Rightarrow> thrown \<Rightarrow> thrown" where
  "rethrow signal e = (if signal = Some True then Error ''Request cancelled'' else e)"

subsection \<open>\<open>search\<close>\<close>

text \<open>
  The clock readings of one call: \<open>Date.now()\<close> at the cache check, and
  \<open>performance.now()\<close> before the fetch and when the response is put together, all in
  milliseconds.
\<close>

record clock =
  date_now :: real
  perf_start :: real
  perf_end :: real

type_synonym cache = "string \<rightharpoonup> SearchResponse"

definition cacheTimeout :: real where
  "cacheTimeout = 5 * 60 * 1000"

definition cacheKey :: "string \<Rightarrow> int \<Rightarrow> int \<Rightarrow> string" where
  "cacheKey q limit offset = q @ ''-'' @ number_text limit @ ''-'' @ number_text offset"

definition param_limit :: "SearchParams \<Rightarrow> int" where
  "param_limit params = (case p_limit params of None \<Rightarrow> 10 | Some l \<Rightarrow> l)"

definition param_offset :: "SearchParams \<Rightarrow> int" where
  "param_offset params = (case p_offset params of None \<Rightarrow> 0 | Some offset \<Rightarrow> offset)"

text \<open>The cache check: the entry under the key, if there is one and it passes the test.\<close>

definition cache_check :: "cache \<Rightarrow> string \<Rightarrow> real \<Rightarrow> SearchResponse option" where
  "cache_check c key now =
     (case c key of
        None \<Rightarrow> None
      | Some cached \<Rightarrow> if now - took cached < cacheTimeout then Some cached else None)"

definition search ::
  "(string \<Rightarrow> int option) \<Rightarrow> SearchParams \<Rightarrow> bool option \<Rightarrow> clock \<Rightarrow> fetched \<Rightarrow> cache
     \<Rightarrow> (thrown + SearchResponse) \<times> cache" where
  "search getTime params signal clk f c =
     (let q = p_query params; limit = param_limit params; offset = param_offset params;
          key = cacheKey q limit offset
      in case cache_check c key (date_now clk) of
           Some cached \<Rightarrow> (Inr cached, c)
         | None \<Rightarrow>
             (case fetch_searchResults f of
                Inl e \<Rightarrow> (Inl (rethrow signal e), c)
              | Inr allResults \<Rightarrow>
                  let filteredResults = filterResults allResults q;
                      sortedResults = sortResults getTime filteredResults q;
                      paginatedResults = slice sortedResults offset (offset + limit);
                      searchResponse =
                        \<lparr>results = paginatedResults, total = length filteredResults,
                         query = q, took = perf_end clk - perf_start clk\<rparr>
                  in (Inr searchResponse, c(key \<mapsto> searchResponse))))"

definition clearCache :: "cache \<Rightarrow> cache" where
  "clearCache c = Map.empty"

subsection \<open>\<open>getSuggestions\<close>\<close>

definition suggest_tag :: "string \<Rightarrow> string list \<Rightarrow> string \<Rightarrow> string list" where
  "suggest_tag q suggestions tag =
     (if str_includes (toLowerCase tag) (toLowerCase q) then set_add tag suggestions
      else suggestions)"

definition suggest_result :: "string \<Rightarrow> string list \<Rightarrow> SearchResult \<Rightarrow> string list" where
  "suggest_result q suggestions r =
     (let s1 = (if str_includes (toLowerCase (title r)) (toLowerCase q)
                then set_add (title r) suggestions else suggestions);
          s2 = (if str_includes (toLowerCase (category r)) (toLowerCase q)
                then set_add (category r) s1 else s1)
      in foldl (suggest_tag q) s2 (tags r))"

definition getSuggestions :: "string \<Rightarrow> bool option \<Rightarrow> fetched \<Rightarrow> thrown + string list" where
  "getSuggestions q signal f =
     (if length q < 2 then Inr []
      else case fetch_searchResults f of
             Inl e \<Rightarrow> Inl (rethrow signal e)
           | Inr allResults \<Rightarrow> Inr (slice (foldl (suggest_result q) [] allResults) 0 5))"

section \<open>The search hook (\<open>hooks/useSearch.ts\<close>)\<close>

text \<open>
  The fields of \<open>SearchState\<close> carry the prefix \<open>st\<close>, since \<open>results\<close> and \<open>query\<close>
  are fields of \<open>SearchResponse\<close> already.
\<close>

record SearchState =
  st_results :: "SearchResult list"
  st_loading :: bool
  st_error :: "string option"
  st_query :: string

text \<open>
  The calls the hook makes to the logger, in order. The durations that the source
  passes along are left out.
\<close>

datatype log_entry =
    SearchStarted string
  | SearchCompleted string nat
  | SearchError string string

text \<open>
  A call of \<open>performSearch\<close> that is suspended at its \<open>await\<close>: the request id it took,
  the \<open>AbortController\<close> it created (an index into the store of controllers), and its
  query.
\<close>

record request =
  req_id :: nat
  req_controller :: nat
  req_query :: string

text \<open>
  The hook with the parts of the browser it talks to. \<open>state\<close> is the React state and
  the three \<open>Ref\<close> fields are the refs of the source. \<open>controllers\<close> is the store of
  the \<open>AbortController\<close> objects created so far, each with its \<open>aborted\<close> flag;
  \<open>timeouts\<close> holds the timeouts that are scheduled and have not run, each with its
  id, the time it is due and the query its callback searches; \<open>timer_count\<close> counts
  the ids handed out by \<open>setTimeout\<close>, which start at \<open>1\<close>; \<open>pending\<close> are the
  suspended calls in the order they started; \<open>clock\<close> is the time in milliseconds.
\<close>

record hook =
  state :: SearchState
  requestIdRef :: nat
  abortControllerRef :: "nat option"
  debounceTimeoutRef :: "nat option"
  controllers :: "bool list"
  timeouts :: "(nat \<times> nat \<times> string) list"
  timer_count :: nat
  pending :: "request list"
  logged :: "log_entry list"
  clock :: nat

definition initial :: hook where
  "initial =
     \<lparr>state = \<lparr>st_results = [], st_loading = False, st_error = None, st_query = []\<rparr>,
      requestIdRef = 0, abortControllerRef = None, debounceTimeoutRef = None,
      controllers = [], timeouts = [], timer_count = 0, pending = [], logged = [], clock = 0\<rparr>"

text \<open>\<open>signal.aborted\<close> of the controller at an index of the store.\<close>

definition aborted :: "hook \<Rightarrow> nat \<Rightarrow> bool" where
  "aborted h i = (i < length (controllers h) \<and> controllers h ! i)"

text \<open>\<open>if (abortControllerRef.current) abortControllerRef.current.abort()\<close>\<close>

definition abort_current :: "hook \<Rightarrow> hook" where
  "abort_current h =
     (case abortControllerRef h of
        None \<Rightarrow> h
      | Some i \<Rightarrow> h\<lparr>controllers := (controllers h)[i := True]\<rparr>)"

text \<open>\<open>if (debounceTimeoutRef.current) clearTimeout(debounceTimeoutRef.current)\<close>\<close>

definition clear_debounce :: "hook \<Rightarrow> hook" where
  "clear_debounce h =
     (case debounceTimeoutRef h of
        None \<Rightarrow> h
      | Some t \<Rightarrow> h\<lparr>timeouts := filter (\<lambda>(i, due, q). i \<noteq> t) (timeouts h)\<rparr>)"



text \<open>
  \<open>performSearch\<close> up to its \<open>await\<close>. \<open>minQueryLength\<close> is the option of the hook.
\<close>

definition performSearch :: "nat \<Rightarrow> string \<Rightarrow> hook \<Rightarrow> hook" where
  "performSearch minQueryLength q h =
     (let h1 = h\<lparr>logged := logged h @ [SearchStarted q]\<rparr> in
      if length q < minQueryLength
      then h1\<lparr>state := (state h1)\<lparr>st_results := [], st_loading := False,
                                   st_error := None, st_query := q\<rparr>\<rparr>
      else
        let h2 = abort_current h1;
            abortController = length (controllers h2);
            h3 = h2\<lparr>controllers := controllers h2 @ [False],
                    abortControllerRef := Some abortController\<rparr>;
            currentRequestId = requestIdRef h3 + 1;
            h4 = h3\<lparr>requestIdRef := currentRequestId\<rparr>;
            h5 = h4\<lparr>state := (state h4)\<lparr>st_loading := True, st_error := None,
                                         st_query := q\<rparr>\<rparr>
        in h5\<lparr>pending := pending h5 @
                 [\<lparr>req_id = currentRequestId, req_controller = abortController,
                   req_query = q\<rparr>]\<rparr>)"

text \<open>
  \<open>performSearch\<close> from its \<open>await\<close> on: the suspended call \<open>r\<close> goes on with what
  \<open>performAPISearch\<close> delivered, the results or a thrown value.
\<close>

definition settle :: "request \<Rightarrow> thrown + SearchResult list \<Rightarrow> hook \<Rightarrow> hook" where
  "settle r outcome h =
     (let h1 = h\<lparr>pending := remove1 r (pending h)\<rparr> in
      case outcome of
        Inr res \<Rightarrow>
          if req_id r = requestIdRef h1
          then h1\<lparr>logged := logged h1 @ [SearchCompleted (req_query r) (length res)],
                  state := (state h1)\<lparr>st_results := res, st_loading := False,
                                       st_error := None\<rparr>\<rparr>
          else h1
      | Inl e \<Rightarrow>
          if req_id r = requestIdRef h1 \<and> \<not> aborted h1 (req_controller r)
          then
            let errorMessage = (case e of Error m \<Rightarrow> m | NotAnError \<Rightarrow> ''An error occurred'')
            in h1\<lparr>logged := logged h1 @ [SearchError (req_query r) errorMessage],
                   state := (state h1)\<lparr>st_loading := False, st_error := Some errorMessage\<rparr>\<rparr>
          else h1)"

text \<open>\<open>setQuery\<close>, \<open>setQueryImmediate\<close>, \<open>clearResults\<close> and the cleanup on unmount.\<close>

definition setQuery :: "nat \<Rightarrow> string \<Rightarrow> hook \<Rightarrow> hook" where
  "setQuery debounceMs q h =
     (let h1 = h\<lparr>state := (state h)\<lparr>st_query := q\<rparr>\<rparr>;
          h2 = clear_debounce h1;
          t = timer_count h2 + 1
      in h2\<lparr>timer_count := t, timeouts := timeouts h2 @ [(t, clock h2 + debounceMs, q)],
             debounceTimeoutRef := Some t\<rparr>)"

definition setQueryImmediate :: "nat \<Rightarrow> string \<Rightarrow> hook \<Rightarrow> hook" where
  "setQueryImmediate minQueryLength q h =
     performSearch minQueryLength q (clear_debounce (h\<lparr>state := (state h)\<lparr>st_query := q\<rparr>\<rparr>))"

definition clearResults :: "hook \<Rightarrow> hook" where
  "clearResults h =
     (clear_debounce (abort_current h))
       \<lparr>state := \<lparr>st_results = [], st_loading = False, st_error = None, st_query = []\<rparr>\<rparr>"

definition unmount :: "hook \<Rightarrow> hook" where
  "unmount h = clear_debounce (abort_current h)"

text \<open>
  Time passes: the clock moves on by \<open>gap\<close> milliseconds and every timeout that is due
  by then runs its callback, \<open>performSearch\<close> of its query.
\<close>

definition elapse :: "nat \<Rightarrow> nat \<Rightarrow> hook \<Rightarrow> hook" where
  "elapse minQueryLength gap h =
     (let now = clock h + gap;
          due = filter (\<lambda>(i, t, q). t \<le> now) (timeouts h);
          later = filter (\<lambda>(i, t, q). \<not> t \<le> now) (timeouts h)
      in foldl (\<lambda>h' (i, t, q). performSearch minQueryLength q h')
           (h\<lparr>timeouts := later, clock := now\<rparr>) due)"

text \<open>
  What can happen to a mounted hook, one event at a time; an interleaving of
  overlapping searches is a list of events, run from the initial state. A \<open>Settle\<close>
  of a call that is not suspended does nothing.
\<close>

datatype event =
    SetQuery string
  | SetQueryImmediate string
  | ClearResults
  | Elapse nat
  | Settle request "thrown + SearchResult list"
  | Unmount

fun step :: "nat \<Rightarrow> nat \<Rightarrow> hook \<Rightarrow> event \<Rightarrow> hook" where
  "step debounceMs minQueryLength h (SetQuery q) = setQuery debounceMs q h"
| "step debounceMs minQueryLength h (SetQueryImmediate q) = setQueryImmediate minQueryLength q h"
| "step debounceMs minQueryLength h ClearResults = clearResults h"
| "step debounceMs minQueryLength h (Elapse gap) = elapse minQueryLength gap h"
| "step debounceMs minQueryLength h (Settle r outcome) =
     (if r \<in> set (pending h) then settle r outcome h else h)"
| "step debounceMs minQueryLength h Unmount = unmount h"

definition run :: "nat \<Rightarrow> nat \<Rightarrow> event list \<Rightarrow> hook" where
  "run debounceMs minQueryLength es = foldl (step debounceMs minQueryLength) initial es"

text \<open>The queries that \<open>performSearch\<close> was called with so far.\<close>

definition searched :: "hook \<Rightarrow> string list" where
  "searched h = concat (map (\<lambda>e. case e of SearchStarted q \<Rightarrow> [q] | _ \<Rightarrow> []) (logged h))"

text \<open>
  A burst of \<open>setQuery\<close> calls: each entry is the time since the call before it and
  the query typed.
\<close>

fun burst :: "nat \<Rightarrow> nat \<Rightarrow> (nat \<times> string) list \<Rightarrow> hook \<Rightarrow> hook" where
  "burst debounceMs minQueryLength [] h = h"
| "burst debounceMs minQueryLength ((gap, q) # calls) h =
     burst debounceMs minQueryLength calls (setQuery debounceMs q (elapse minQueryLength gap h))"

section \<open>The search box and the page URL (\<open>components/SearchInput.tsx\<close>)\<close>

text \<open>
  \<open>value.trim()\<close> removes white space and line terminators from both ends; on ASCII
  text these are the space and the characters \<open>0x09\<close> to \<open>0x0D\<close>.
\<close>

definition is_space :: "char \<Rightarrow> bool" where
  "is_space c = (c \<in> set [CHR '' '', CHR 0x09, CHR 0x0A, CHR 0x0B, CHR 0x0C, CHR 0x0D])"

definition trim :: "string \<Rightarrow> string" where
  "trim s = rev (dropWhile is_space (rev (dropWhile is_space s)))"

text \<open>
  A \<open>URL\<close> object: its \<open>searchParams\<close> as the list of name and value pairs, in front
  of them the address up to the query, behind them the fragment. Printing a URL with
  \<open>toString\<close> and reading it back gives the same parts, so the page URL is kept in
  this form.
\<close>

record url =
  address :: string
  searchParams :: "(string \<times> string) list"
  fragment :: string


definition params_delete :: "string \<Rightarrow> (string \<times> string) list \<Rightarrow> (string \<times> string) list" where
  "params_delete name ps = filter (\<lambda>(n, v). n \<noteq> name) ps"

fun params_set :: "string \<Rightarrow> string \<Rightarrow> (string \<times> string) list \<Rightarrow> (string \<times> string) list" where
  "params_set name v [] = [(name, v)]"
| "params_set name v ((n, w) # ps) =
     (if n = name then (name, v) # params_delete name ps else (n, w) # params_set name v ps)"

text \<open>
  The browser window: the URL of the page, the number of entries of the session
  history, and how often the document has been loaded. \<open>history.replaceState\<close> puts a
  URL into the current history entry; \<open>window.location.reload()\<close>, which the
  \<open>Try Again\<close> button of the result list calls, loads the document again.
\<close>

record window =
  location :: url
  history_length :: nat
  loads :: nat

definition replaceState :: "url \<Rightarrow> window \<Rightarrow> window" where
  "replaceState u w = w\<lparr>location := u\<rparr>"

definition reload :: "window \<Rightarrow> window" where
  "reload w = w\<lparr>loads := loads w + 1\<rparr>"

datatype url_log_entry = UrlUpdated url | UrlError string

text \<open>
  The mounted component, as far as its URL effect goes: the \<open>value\<close> prop of the last
  render, the timeout of the effect if it is scheduled and has not run (the time it is
  due and the value its callback closes over), the window, the calls to the logger,
  and the time in milliseconds.
\<close>

record search_input =
  value_prop :: string
  url_timeout :: "(nat \<times> string) option"
  win :: window
  url_log :: "url_log_entry list"
  input_clock :: nat

text \<open>
  The callback of the timeout. \<open>refusal\<close> is \<open>None\<close> when the browser carries out
  \<open>history.replaceState\<close>, and the value it throws when it does not; the \<open>catch\<close>
  block logs that.
\<close>

definition update_url :: "thrown option \<Rightarrow> string \<Rightarrow> search_input \<Rightarrow> search_input" where
  "update_url refusal v p =
     (let u = location (win p);
          newUrl = (if trim v \<noteq> []
                    then u\<lparr>searchParams := params_set ''q'' (trim v) (searchParams u)\<rparr>
                    else u\<lparr>searchParams := params_delete ''q'' (searchParams u)\<rparr>)
      in case refusal of
           None \<Rightarrow> p\<lparr>win := replaceState newUrl (win p),
                      url_log := url_log p @ [UrlUpdated newUrl]\<rparr>
         | Some e \<Rightarrow>
             p\<lparr>url_log := url_log p @
                  [UrlError (case e of Error m \<Rightarrow> m | NotAnError \<Rightarrow> ''URL update failed'')]\<rparr>)"



definition input_unmount :: "search_input \<Rightarrow> search_input" where
  "input_unmount p = p\<lparr>url_timeout := None\<rparr>"


section \<open>Notions used in the statements\<close>




text \<open>
  Invariants of the hook. Every scheduled timeout is the one \<open>debounceTimeoutRef\<close>
  holds. Every controller that is not aborted is the one \<open>abortControllerRef\<close> holds,
  and the suspended calls have controllers of the store, each its own. The suspended
  calls carry ids that grow in the order the calls started, none above the current id.
\<close>

definition timers_ok :: "hook \<Rightarrow> bool" where
  "timers_ok h = (\<forall>(i, t, q)\<in>set (timeouts h). debounceTimeoutRef h = Some i)"

definition controllers_ok :: "hook \<Rightarrow> bool" where
  "controllers_ok h =
     ((\<forall>i<length (controllers h). \<not> controllers h ! i \<longrightarrow> abortControllerRef h = Some i) \<and>
      (\<forall>r\<in>set (pending h). req_controller r < length (controllers h)) \<and>
      distinct (map req_controller (pending h)))"

definition requests_sorted :: "hook \<Rightarrow> bool" where
  "requests_sorted h =
     (sorted_wrt (<) (map req_id (pending h)) \<and> (\<forall>r\<in>set (pending h). req_id r \<le> requestIdRef h))"





subsection \<open>A small data set\<close>

text \<open>
  Three entries, the second with an empty date, and the time values of the two dates
  (midnight UTC, in milliseconds); the empty string is not a date.
\<close>

definition sample_a :: SearchResult where
  "sample_a = \<lparr>ident = ''1'', title = ''Intro to React'', description = ''Hooks and state'',
     category = ''Frontend'', tags = [''javascript''], url = ''/a'', author = ''Ann'',
     date = ''2024-01-01''\<rparr>"

definition sample_b :: SearchResult where
  "sample_b = \<lparr>ident = ''2'', title = ''React Router'', description = ''Pages and links'',
     category = ''Frontend'', tags = [''routing'', ''react''], url = ''/b'', author = ''Bob'',
     date = []\<rparr>"

definition sample_c :: SearchResult where
  "sample_c = \<lparr>ident = ''3'', title = ''Testing React'', description = ''Unit tests'',
     category = ''Quality'', tags = [], url = ''/c'', author = ''Cy'',
     date = ''2024-06-01''\<rparr>"

definition sample_getTime :: "string \<Rightarrow> int option" where
  "sample_getTime s =
     map_of [(''2024-01-01'', 1704067200000), (''2024-06-01'', 1717200000000)] s"

definition empty_cache :: cache where
  "empty_cache = Map.empty"

text \<open>
  Calls of \<open>search\<close> on this data set: the parameters, the clock readings of a first
  call and of a second one a second later, and what the first call returns and
  leaves in the cache.
\<close>

definition sample_data :: fetched where
  "sample_data = Response 200 (Inr [sample_a, sample_b, sample_c])"

definition sample_params :: SearchParams where
  "sample_params = \<lparr>p_query = ''react'', p_limit = Some 10, p_offset = Some 0\<rparr>"

definition first_clock :: clock where
  "first_clock = \<lparr>date_now = 1700000000000, perf_start = 100, perf_end = 112\<rparr>"

definition second_clock :: clock where
  "second_clock = \<lparr>date_now = 1700000001000, perf_start = 1100, perf_end = 1112\<rparr>"

definition first_response :: SearchResponse where
  "first_response =
     \<lparr>results = [sample_a, sample_b, sample_c], total = 3, query = ''react'', took = 12\<rparr>"

definition cache_after_first :: cache where
  "cache_after_first = snd (search sample_getTime sample_params None first_clock sample_data empty_cache)"

text \<open>A hook with two overlapping searches, and the call suspended first.\<close>

definition two_searches :: "event list" where
  "two_searches = [SetQueryImmediate ''re'', SetQueryImmediate ''react'']"

definition first_request :: request where
  "first_request = \<lparr>req_id = 1, req_controller = 0, req_query = ''re''\<rparr>"


section \<open>Facts about the runtime functions\<close>






lemma slice_0: "0 \<le> n \<Longrightarrow> slice xs 0 n = take (nat n) xs"
  by (simp add: slice_def Let_def min_def)







subsection \<open>The cache key\<close>

text \<open>
  The key of a query, a limit and an offset tells the three apart as long as the limit
  is not negative: a query that ends in a minus sign with the limit \<open>1\<close> has the
  key of the query without that sign with the limit \<open>-1\<close>.
\<close>

declare digits.simps [simp del]












section \<open>Filtering, ranking and the response of \<open>search\<close>\<close>


lemma length_filterResults: "length (filterResults rs q) \<le> length rs"
  by (simp add: filterResults_def Let_def)



lemma search_built:
  assumes "cache_check c (cacheKey (p_query params) (param_limit params) (param_offset params))
             (date_now clk) = None"
    and "search getTime params signal clk f c = (Inr resp, c')"
  shows "\<exists>allResults. fetch_searchResults f = Inr allResults \<and>
           resp = \<lparr>results = slice (sortResults getTime (filterResults allResults (p_query params))
                                      (p_query params))
                              (param_offset params) (param_offset params + param_limit params),
                   total = length (filterResults allResults (p_query params)),
                   query = p_query params, took = perf_end clk - perf_start clk\<rparr> \<and>
           c' = c(cacheKey (p_query params) (param_limit params) (param_offset params) \<mapsto> resp)"
  using assms by (auto simp: search_def Let_def split: sum.splits)












subsection \<open>The order of \<open>sortResults\<close>\<close>













subsection \<open>The response\<close>




subsection \<open>The cache\<close>

text \<open>
  What \<open>search\<close> stores as \<open>took\<close> is a duration, and the check holds \<open>Date.now()\<close>
  against it: an entry passes only while the clock reads less than five minutes plus
  that duration.
\<close>

lemma cache_check_stale:
  "c key = Some cached \<Longrightarrow> cacheTimeout + took cached \<le> now \<Longrightarrow> cache_check c key now = None"
  by (simp add: cache_check_def)

lemma search_stores_duration:
  assumes "cache_check c (cacheKey (p_query params) (param_limit params) (param_offset params))
             (date_now clk) = None"
    and "search getTime params signal clk f c = (Inr resp, c')"
  shows "took resp = perf_end clk - perf_start clk \<and>
         c' (cacheKey (p_query params) (param_limit params) (param_offset params)) = Some resp"
  using search_built[OF assms] by auto

text \<open>
  Claim C1, that a second call with the same parameters within five minutes is
  answered from the cache without a fetch, does not hold of the source. A first call at \<open>Date.now() = 1700000000000\<close>
  returns a response with \<open>took = 12\<close> and stores it. The same call one second
  later finds the entry, computes \<open>1700000001000 - 12 < 300000\<close>, which is false, and
  fetches again: here the second fetch is answered with status \<open>503\<close>, and the call
  rejects instead of returning the stored response.
\<close>

theorem second_search_fetches_again:
  "fst (search sample_getTime sample_params None first_clock sample_data empty_cache)
     = Inr first_response \<and>
   cache_after_first (cacheKey ''react'' 10 0) = Some first_response \<and>
   fst (search sample_getTime sample_params None second_clock (Response 503 (Inr []))
          cache_after_first)
     = Inl (Error ''HTTP error! status: 503'')"
  by code_simp

subsection \<open>Suggestions\<close>

lemma distinct_set_add: "distinct s \<Longrightarrow> distinct (set_add x s)"
  by (simp add: set_add_def)

lemma set_set_add: "set (set_add x s) = insert x (set s)"
  by (auto simp: set_add_def)

lemma distinct_suggest_tags: "distinct s \<Longrightarrow> distinct (foldl (suggest_tag q) s ts)"
  by (induction ts arbitrary: s) (simp_all add: suggest_tag_def distinct_set_add)

lemma set_suggest_tags:
  "set (foldl (suggest_tag q) s ts)
     = set s \<union> {t \<in> set ts. str_includes (toLowerCase t) (toLowerCase q)}"
  by (induction ts arbitrary: s) (auto simp: suggest_tag_def set_set_add)

lemma distinct_suggest_result: "distinct s \<Longrightarrow> distinct (suggest_result q s r)"
  by (simp add: suggest_result_def Let_def distinct_suggest_tags distinct_set_add)

lemma set_suggest_result:
  "set (suggest_result q s r)
     = set s \<union> {t. (t = title r \<or> t = category r \<or> t \<in> set (tags r))
                    \<and> str_includes (toLowerCase t) (toLowerCase q)}"
  by (auto simp: suggest_result_def Let_def set_suggest_tags set_set_add)

lemma distinct_suggestions: "distinct s \<Longrightarrow> distinct (foldl (suggest_result q) s rs)"
  by (induction rs arbitrary: s) (simp_all add: distinct_suggest_result)

lemma set_suggestions:
  "set (foldl (suggest_result q) s rs)
     = set s \<union> {t. \<exists>r\<in>set rs. (t = title r \<or> t = category r \<or> t \<in> set (tags r))
                    \<and> str_includes (toLowerCase t) (toLowerCase q)}"
proof (induction rs arbitrary: s)
  case Nil
  then show ?case by simp
next
  case (Cons r rs)
  show ?case
    unfolding foldl_Cons Cons.IH set_suggest_result by auto
qed

text \<open>
  Claim C10. \<open>getSuggestions\<close> returns the empty list for every query shorter than
  two characters. For a longer query a list it returns has at most five entries, no
  entry twice, and each entry is the title, the category or a tag of an entry of the
  fetched data set and contains the query, both lowercased.
\<close>

theorem getSuggestions_result:
  "(length q < 2 \<longrightarrow> getSuggestions q signal f = Inr []) \<and>
   (2 \<le> length q \<and> getSuggestions q signal f = Inr out \<longrightarrow>
      length out \<le> 5 \<and> distinct out \<and>
      (\<exists>allResults. fetch_searchResults f = Inr allResults \<and>
         (\<forall>s\<in>set out. \<exists>r\<in>set allResults.
            (s = title r \<or> s = category r \<or> s \<in> set (tags r)) \<and>
            str_includes (toLowerCase s) (toLowerCase q))))"
proof (intro conjI impI)
  show "getSuggestions q signal f = Inr []" if "length q < 2"
    using that by (simp add: getSuggestions_def)
next
  assume h: "2 \<le> length q \<and> getSuggestions q signal f = Inr out"
  then obtain allResults where f: "fetch_searchResults f = Inr allResults"
    and out: "out = slice (foldl (suggest_result q) [] allResults) 0 5"
    by (auto simp: getSuggestions_def split: sum.splits)
  have take: "out = take 5 (foldl (suggest_result q) [] allResults)"
    using out by (simp add: slice_0)
  show "length out \<le> 5" using take by simp
  show "distinct out" using take by (simp add: distinct_suggestions)
  have "set out \<subseteq> set (foldl (suggest_result q) [] allResults)"
    using take by (simp add: set_take_subset)
  then have "\<forall>s\<in>set out. \<exists>r\<in>set allResults.
            (s = title r \<or> s = category r \<or> s \<in> set (tags r)) \<and>
            str_includes (toLowerCase s) (toLowerCase q)"
    unfolding set_suggestions by auto
  with f show "\<exists>allResults. fetch_searchResults f = Inr allResults \<and>
         (\<forall>s\<in>set out. \<exists>r\<in>set allResults.
            (s = title r \<or> s = category r \<or> s \<in> set (tags r)) \<and>
            str_includes (toLowerCase s) (toLowerCase q))"
    by blast
qed

text \<open>
  An instance: nothing for the query \<open>r\<close>, and four suggestions for \<open>re\<close>.
\<close>

theorem getSuggestions_result_witness:
  "getSuggestions ''r'' None sample_data = Inr [] \<and>
   getSuggestions ''re'' None sample_data
     = Inr [''Intro to React'', ''React Router'', ''react'', ''Testing React''] \<and>
   length [''Intro to React'', ''React Router'', ''react'', ''Testing React''] \<le> 5 \<and>
   distinct [''Intro to React'', ''React Router'', ''react'', ''Testing React'']"
proof -
  let ?out = "[''Intro to React'', ''React Router'', ''react'', ''Testing React'']"
  have short: "length ''r'' < 2" by simp
  have long: "2 \<le> length ''re''" by simp
  have res: "getSuggestions ''re'' None sample_data = Inr ?out"
    by code_simp
  have "getSuggestions ''r'' None sample_data = Inr []"
    using getSuggestions_result[of "''r''" None sample_data] short by blast
  moreover have "length ?out \<le> 5 \<and> distinct ?out"
    using getSuggestions_result[of "''re''" None sample_data ?out] long res by blast
  ultimately show ?thesis using res by blast
qed

section \<open>The hook\<close>

lemma abort_current_fields [simp]:
  "state (abort_current h) = state h" "requestIdRef (abort_current h) = requestIdRef h"
  "abortControllerRef (abort_current h) = abortControllerRef h"
  "debounceTimeoutRef (abort_current h) = debounceTimeoutRef h"
  "timeouts (abort_current h) = timeouts h" "timer_count (abort_current h) = timer_count h"
  "pending (abort_current h) = pending h" "logged (abort_current h) = logged h"
  "clock (abort_current h) = clock h"
  "length (controllers (abort_current h)) = length (controllers h)"
  by (simp_all add: abort_current_def split: option.splits)

lemma clear_debounce_fields [simp]:
  "state (clear_debounce h) = state h" "requestIdRef (clear_debounce h) = requestIdRef h"
  "abortControllerRef (clear_debounce h) = abortControllerRef h"
  "debounceTimeoutRef (clear_debounce h) = debounceTimeoutRef h"
  "controllers (clear_debounce h) = controllers h" "timer_count (clear_debounce h) = timer_count h"
  "pending (clear_debounce h) = pending h" "logged (clear_debounce h) = logged h"
  "clock (clear_debounce h) = clock h"
  by (simp_all add: clear_debounce_def split: option.splits)

lemma performSearch_fields [simp]:
  "timeouts (performSearch m q h) = timeouts h"
  "debounceTimeoutRef (performSearch m q h) = debounceTimeoutRef h"
  "timer_count (performSearch m q h) = timer_count h"
  "clock (performSearch m q h) = clock h"
  "logged (performSearch m q h) = logged h @ [SearchStarted q]"
  by (simp_all add: performSearch_def Let_def)

lemma performSearch_long:
  assumes "m \<le> length q"
  shows "controllers (performSearch m q h) = controllers (abort_current h) @ [False]"
    "abortControllerRef (performSearch m q h) = Some (length (controllers h))"
    "requestIdRef (performSearch m q h) = requestIdRef h + 1"
    "pending (performSearch m q h) = pending h @
       [\<lparr>req_id = requestIdRef h + 1, req_controller = length (controllers h), req_query = q\<rparr>]"
  using assms by (simp_all add: performSearch_def Let_def abort_current_def split: option.splits)

lemma performSearch_short:
  assumes "length q < m"
  shows "controllers (performSearch m q h) = controllers h"
    "abortControllerRef (performSearch m q h) = abortControllerRef h"
    "requestIdRef (performSearch m q h) = requestIdRef h"
    "pending (performSearch m q h) = pending h"
  using assms by (simp_all add: performSearch_def Let_def)

lemma settle_fields [simp]:
  "timeouts (settle r out h) = timeouts h"
  "debounceTimeoutRef (settle r out h) = debounceTimeoutRef h"
  "timer_count (settle r out h) = timer_count h"
  "clock (settle r out h) = clock h"
  "controllers (settle r out h) = controllers h"
  "abortControllerRef (settle r out h) = abortControllerRef h"
  "requestIdRef (settle r out h) = requestIdRef h"
  "pending (settle r out h) = remove1 r (pending h)"
  by (simp_all add: settle_def Let_def split: sum.splits)

lemma setQuery_fields [simp]:
  "debounceTimeoutRef (setQuery d q h) = Some (timer_count h + 1)"
  "clock (setQuery d q h) = clock h" "logged (setQuery d q h) = logged h"
  "controllers (setQuery d q h) = controllers h" "pending (setQuery d q h) = pending h"
  "abortControllerRef (setQuery d q h) = abortControllerRef h"
  "requestIdRef (setQuery d q h) = requestIdRef h"
  by (simp_all add: setQuery_def Let_def)

lemma foldl_performSearch_fields [simp]:
  "timeouts (foldl (\<lambda>h' (i, t, q). performSearch m q h') h xs) = timeouts h"
  "debounceTimeoutRef (foldl (\<lambda>h' (i, t, q). performSearch m q h') h xs) = debounceTimeoutRef h"
  "clock (foldl (\<lambda>h' (i, t, q). performSearch m q h') h xs) = clock h"
  by (induction xs arbitrary: h) (auto split: prod.splits)

lemma elapse_fields [simp]:
  "debounceTimeoutRef (elapse m gap h) = debounceTimeoutRef h"
  "clock (elapse m gap h) = clock h + gap"
  "timeouts (elapse m gap h) = filter (\<lambda>(i, t, q). \<not> t \<le> clock h + gap) (timeouts h)"
  by (simp_all add: elapse_def Let_def)

subsection \<open>The debounce timeout\<close>

lemma timers_ok_clear: "timers_ok h \<Longrightarrow> timeouts (clear_debounce h) = []"
proof (cases "debounceTimeoutRef h")
  case None
  assume "timers_ok h"
  with None have "timeouts h = []"
    by (cases "timeouts h") (auto simp: timers_ok_def)
  with None show ?thesis by (simp add: clear_debounce_def)
next
  case (Some t)
  assume "timers_ok h"
  with Some have "filter (\<lambda>(i, due, q). i \<noteq> t) (timeouts h) = []"
    by (auto simp: filter_empty_conv timers_ok_def)
  with Some show ?thesis by (simp add: clear_debounce_def)
qed

lemma setQuery_timeouts:
  "timers_ok h \<Longrightarrow> timeouts (setQuery d q h) = [(timer_count h + 1, clock h + d, q)]"
  by (simp add: setQuery_def Let_def timers_ok_clear timers_ok_def)

lemma timers_ok_step: "timers_ok h \<Longrightarrow> timers_ok (step d m h e)"
proof (cases e)
  case (SetQuery q)
  assume "timers_ok h"
  then have "timeouts (setQuery d q h) = [(timer_count h + 1, clock h + d, q)]"
    by (rule setQuery_timeouts)
  then show ?thesis using SetQuery by (simp add: timers_ok_def)
next
  case (SetQueryImmediate q)
  assume "timers_ok h"
  then have "timers_ok (h\<lparr>state := (state h)\<lparr>st_query := q\<rparr>\<rparr>)" by (simp add: timers_ok_def)
  then have "timeouts (clear_debounce (h\<lparr>state := (state h)\<lparr>st_query := q\<rparr>\<rparr>)) = []"
    by (rule timers_ok_clear)
  then show ?thesis using SetQueryImmediate by (simp add: setQueryImmediate_def timers_ok_def)
next
  case ClearResults
  assume "timers_ok h"
  then have "timers_ok (abort_current h)" by (simp add: timers_ok_def)
  then have "timeouts (clear_debounce (abort_current h)) = []" by (rule timers_ok_clear)
  then show ?thesis using ClearResults by (simp add: clearResults_def timers_ok_def)
next
  case (Elapse gap)
  assume "timers_ok h"
  then show ?thesis using Elapse by (auto simp: timers_ok_def)
next
  case (Settle r out)
  assume "timers_ok h"
  then show ?thesis using Settle by (simp add: timers_ok_def)
next
  case Unmount
  assume "timers_ok h"
  then have "timers_ok (abort_current h)" by (simp add: timers_ok_def)
  then have "timeouts (clear_debounce (abort_current h)) = []" by (rule timers_ok_clear)
  then show ?thesis using Unmount by (simp add: unmount_def timers_ok_def)
qed

lemma timers_ok_run: "timers_ok (run d m es)"
proof (induction es rule: rev_induct)
  case Nil
  show ?case by (simp add: run_def timers_ok_def initial_def)
next
  case (snoc e es)
  then show ?case by (simp add: run_def timers_ok_step)
qed

lemma elapse_idle:
  assumes "timeouts h = [(i, due, q)]" "clock h + gap < due"
  shows "timeouts (elapse m gap h) = [(i, due, q)]" "logged (elapse m gap h) = logged h"
  using assms by (simp_all add: elapse_def Let_def)

lemma elapse_fire:
  assumes "timeouts h = [(i, due, q)]" "due \<le> clock h + gap"
  shows "logged (elapse m gap h) = logged h @ [SearchStarted q]"
  using assms by (simp add: elapse_def Let_def)

lemma burst_pending:
  assumes "timeouts h = [(i, clock h + d, q)]" "debounceTimeoutRef h = Some i"
    and "\<forall>(gap, q')\<in>set calls. gap < d"
  shows "\<exists>j. timeouts (burst d m calls h)
               = [(j, clock (burst d m calls h) + d, last (q # map snd calls))] \<and>
             logged (burst d m calls h) = logged h"
  using assms
proof (induction calls arbitrary: h i q)
  case Nil
  then show ?case by simp
next
  case (Cons c calls)
  obtain gap q' where c: "c = (gap, q')" by (cases c)
  let ?h1 = "elapse m gap h"
  let ?h2 = "setQuery d q' ?h1"
  have gap: "gap < d" using Cons.prems(3) c by simp
  have t1: "timeouts ?h1 = [(i, clock h + d, q)]" and l1: "logged ?h1 = logged h"
    using elapse_idle[OF Cons.prems(1), of gap m] gap by simp_all
  have ok1: "timers_ok ?h1"
    using t1 Cons.prems(2) by (simp add: timers_ok_def)
  have t2: "timeouts ?h2 = [(timer_count ?h1 + 1, clock ?h2 + d, q')]"
    using setQuery_timeouts[OF ok1, of d q'] by simp
  have "\<exists>j. timeouts (burst d m calls ?h2)
               = [(j, clock (burst d m calls ?h2) + d, last (q' # map snd calls))] \<and>
             logged (burst d m calls ?h2) = logged ?h2"
    using Cons.IH[OF t2] Cons.prems(3) by simp
  then show ?case using c l1 by simp
qed

text \<open>
  Claim C7. After any history of events, a call of \<open>setQuery\<close> leaves exactly one
  timeout scheduled, its own, due \<open>debounceMs\<close> later with the query of the call:
  what was scheduled before is cancelled. Hence when further calls follow, each
  sooner than \<open>debounceMs\<close> after the one before it, \<open>performSearch\<close> is not called
  during the burst, and once \<open>debounceMs\<close> have passed after the last call it has been
  called once, with the last query.
\<close>

theorem setQuery_debounce:
  fixes d m es q calls wait
  defines "h \<equiv> run d m es"
  shows "timeouts (setQuery d q h) = [(timer_count h + 1, clock h + d, q)] \<and>
         ((\<forall>(gap, q')\<in>set calls. gap < d) \<and> d \<le> wait \<longrightarrow>
            searched (burst d m calls (setQuery d q h)) = searched h \<and>
            searched (elapse m wait (burst d m calls (setQuery d q h)))
              = searched h @ [last (q # map snd calls)])"
proof (intro conjI impI)
  have ok: "timers_ok h" unfolding h_def by (rule timers_ok_run)
  show t: "timeouts (setQuery d q h) = [(timer_count h + 1, clock h + d, q)]"
    using ok by (rule setQuery_timeouts)
  assume a: "(\<forall>(gap, q')\<in>set calls. gap < d) \<and> d \<le> wait"
  let ?b = "burst d m calls (setQuery d q h)"
  have t': "timeouts (setQuery d q h) = [(timer_count h + 1, clock (setQuery d q h) + d, q)]"
    using t by simp
  obtain j where j: "timeouts ?b = [(j, clock ?b + d, last (q # map snd calls))]"
    and l: "logged ?b = logged h"
    using burst_pending[OF t', of calls m] a by auto
  show "searched ?b = searched h" using l by (simp add: searched_def)
  have "logged (elapse m wait ?b) = logged ?b @ [SearchStarted (last (q # map snd calls))]"
    using elapse_fire[OF j, of wait m] a by simp
  then show "searched (elapse m wait ?b) = searched h @ [last (q # map snd calls)]"
    using l by (simp add: searched_def)
qed

text \<open>
  An instance: \<open>r\<close>, \<open>re\<close>, \<open>rea\<close>, \<open>react\<close> typed within 340 milliseconds with a
  debounce of 800; only \<open>react\<close> is searched.
\<close>

theorem setQuery_debounce_witness:
  "timeouts (setQuery 800 ''r'' (run 800 2 [])) = [(1, 800, ''r'')] \<and>
   searched (burst 800 2 [(100, ''re''), (150, ''rea''), (90, ''react'')]
               (setQuery 800 ''r'' (run 800 2 []))) = [] \<and>
   searched (elapse 2 800 (burst 800 2 [(100, ''re''), (150, ''rea''), (90, ''react'')]
               (setQuery 800 ''r'' (run 800 2 [])))) = [''react'']"
proof -
  let ?calls = "[(100, ''re''), (150, ''rea''), (90, ''react'')] :: (nat \<times> string) list"
  have close: "(\<forall>(gap, q')\<in>set ?calls. gap < (800::nat)) \<and> (800::nat) \<le> 800"
    by simp
  have start: "searched (run 800 2 []) = []" "timer_count (run 800 2 []) = 0"
    "clock (run 800 2 []) = 0"
    by (simp_all add: run_def initial_def searched_def)
  note t = setQuery_debounce[where d = 800 and q = "''r''" and m = 2 and es = "[]"
      and calls = ?calls and wait = 800]
  have "timeouts (setQuery 800 ''r'' (run 800 2 [])) = [(1, 800, ''r'')]"
    using t start by simp
  moreover have "searched (burst 800 2 ?calls (setQuery 800 ''r'' (run 800 2 []))) = [] \<and>
    searched (elapse 2 800 (burst 800 2 ?calls (setQuery 800 ''r'' (run 800 2 [])))) = [''react'']"
    using t[THEN conjunct2, rule_format, OF close] start by simp
  ultimately show ?thesis by blast
qed

subsection \<open>Abort controllers\<close>

lemma controllers_abort_current:
  "controllers (abort_current h) =
     (case abortControllerRef h of None \<Rightarrow> controllers h | Some i \<Rightarrow> (controllers h)[i := True])"
  by (simp add: abort_current_def split: option.splits)

lemma abort_current_all_aborted:
  assumes "\<forall>i<length (controllers h). \<not> controllers h ! i \<longrightarrow> abortControllerRef h = Some i"
    and "i < length (controllers h)"
  shows "controllers (abort_current h) ! i"
proof (cases "abortControllerRef h")
  case None
  then show ?thesis using assms by (auto simp: controllers_abort_current)
next
  case (Some j)
  show ?thesis
  proof (cases "i = j")
    case True
    then show ?thesis using Some assms(2) by (simp add: controllers_abort_current)
  next
    case False
    then have "controllers h ! i" using assms Some by auto
    then show ?thesis using Some False by (simp add: controllers_abort_current)
  qed
qed

lemma controllers_ok_abort_current: "controllers_ok h \<Longrightarrow> controllers_ok (abort_current h)"
  unfolding controllers_ok_def
  using abort_current_all_aborted[of h] by simp

lemma controllers_ok_performSearch:
  assumes "controllers_ok h"
  shows "controllers_ok (performSearch m q h)"
proof (cases "length q < m")
  case True
  then show ?thesis using assms by (simp add: controllers_ok_def performSearch_short)
next
  case False
  then have long: "m \<le> length q" by simp
  have a: "\<forall>i<length (controllers h). controllers (abort_current h) ! i"
    using assms abort_current_all_aborted[of h] by (simp add: controllers_ok_def)
  have "\<forall>i<length (controllers (performSearch m q h)).
          \<not> controllers (performSearch m q h) ! i \<longrightarrow>
          abortControllerRef (performSearch m q h) = Some i"
  proof (intro allI impI)
    fix i
    assume i: "i < length (controllers (performSearch m q h))"
      and n: "\<not> controllers (performSearch m q h) ! i"
    have "i = length (controllers h)"
    proof (rule ccontr)
      assume "i \<noteq> length (controllers h)"
      then have "i < length (controllers h)" using i by (simp add: performSearch_long[OF long])
      then show False using n a by (simp add: performSearch_long[OF long] nth_append)
    qed
    then show "abortControllerRef (performSearch m q h) = Some i"
      by (simp add: performSearch_long[OF long])
  qed
  moreover have "\<forall>r\<in>set (pending (performSearch m q h)).
      req_controller r < length (controllers (performSearch m q h))"
    using assms by (auto simp: performSearch_long[OF long] controllers_ok_def)
  moreover have "distinct (map req_controller (pending (performSearch m q h)))"
    using assms by (auto simp: performSearch_long[OF long] controllers_ok_def)
  ultimately show ?thesis by (simp add: controllers_ok_def)
qed

lemma controllers_ok_fold:
  "controllers_ok h \<Longrightarrow> controllers_ok (foldl (\<lambda>h' (i, t, q). performSearch m q h') h xs)"
  by (induction xs arbitrary: h) (auto simp: controllers_ok_performSearch)

lemma set_map_remove1: "set (map f (remove1 x xs)) \<subseteq> set (map f xs)"
  using set_remove1_subset[of x xs] by auto

lemma distinct_map_remove1: "distinct (map f xs) \<Longrightarrow> distinct (map f (remove1 x xs))"
proof (induction xs)
  case Nil
  then show ?case by simp
next
  case (Cons y ys)
  then show ?case using set_map_remove1[of f x ys] by auto
qed

lemma sorted_wrt_map_remove1:
  "sorted_wrt P (map f xs) \<Longrightarrow> sorted_wrt P (map f (remove1 x xs))"
proof (induction xs)
  case Nil
  then show ?case by simp
next
  case (Cons y ys)
  then show ?case using set_map_remove1[of f x ys] by auto
qed

lemma controllers_ok_settle: "controllers_ok h \<Longrightarrow> controllers_ok (settle r out h)"
  unfolding controllers_ok_def
  using set_remove1_subset[of r "pending h"] by (auto simp: distinct_map_remove1)

lemma controllers_ok_step: "controllers_ok h \<Longrightarrow> controllers_ok (step d m h e)"
proof (cases e)
  case (SetQuery q)
  assume "controllers_ok h"
  then show ?thesis using SetQuery by (simp add: controllers_ok_def)
next
  case (SetQueryImmediate q)
  assume "controllers_ok h"
  then have "controllers_ok (clear_debounce (h\<lparr>state := (state h)\<lparr>st_query := q\<rparr>\<rparr>))"
    by (simp add: controllers_ok_def)
  then show ?thesis using SetQueryImmediate
    by (simp add: setQueryImmediate_def controllers_ok_performSearch)
next
  case ClearResults
  assume "controllers_ok h"
  then have "controllers_ok (abort_current h)" by (rule controllers_ok_abort_current)
  then show ?thesis using ClearResults by (simp add: clearResults_def controllers_ok_def)
next
  case (Elapse gap)
  assume "controllers_ok h"
  then have "controllers_ok (h\<lparr>timeouts := filter (\<lambda>(i, t, q). \<not> t \<le> clock h + gap) (timeouts h),
                               clock := clock h + gap\<rparr>)"
    by (simp add: controllers_ok_def)
  then show ?thesis using Elapse by (simp add: elapse_def Let_def controllers_ok_fold)
next
  case (Settle r out)
  assume "controllers_ok h"
  then show ?thesis using Settle by (simp add: controllers_ok_settle)
next
  case Unmount
  assume "controllers_ok h"
  then have "controllers_ok (abort_current h)" by (rule controllers_ok_abort_current)
  then show ?thesis using Unmount by (simp add: unmount_def controllers_ok_def)
qed

lemma controllers_ok_run: "controllers_ok (run d m es)"
proof (induction es rule: rev_induct)
  case Nil
  show ?case by (simp add: run_def controllers_ok_def initial_def)
next
  case (snoc e es)
  then show ?case by (simp add: run_def controllers_ok_step)
qed

lemma filter_at_most_one:
  assumes "distinct (map f xs)" "\<forall>x\<in>set xs. P x \<longrightarrow> f x = c"
  shows "length (filter P xs) \<le> 1"
  using assms
proof (induction xs)
  case Nil
  then show ?case by simp
next
  case (Cons x xs)
  show ?case
  proof (cases "P x")
    case True
    then have fx: "f x = c" using Cons.prems(2) by simp
    have "\<forall>y\<in>set xs. \<not> P y"
    proof
      fix y assume y: "y \<in> set xs"
      show "\<not> P y"
      proof
        assume "P y"
        then have "f y = f x" using Cons.prems(2) y fx by simp
        then have "f x \<in> f ` set xs" using y by (metis imageI)
        then show False using Cons.prems(1) by simp
      qed
    qed
    then have "filter P xs = []" by (simp add: filter_empty_conv)
    then show ?thesis using True by simp
  next
    case False
    then show ?thesis using Cons by simp
  qed
qed

text \<open>
  Claim C5. After any history of events at most one suspended call has a controller
  that is not aborted, and at most one controller of the store is not aborted. When
  \<open>performSearch\<close> starts a request (the query has \<open>minQueryLength\<close> characters or
  more), every controller created before is aborted afterwards, and
  \<open>abortControllerRef\<close> holds the new controller, which is not aborted.
\<close>

theorem one_live_request:
  fixes d m es q
  defines "h \<equiv> run d m es"
  shows "length (filter (\<lambda>r. \<not> aborted h (req_controller r)) (pending h)) \<le> 1 \<and>
         (\<forall>i<length (controllers h). \<forall>j<length (controllers h).
            \<not> controllers h ! i \<and> \<not> controllers h ! j \<longrightarrow> i = j) \<and>
         (m \<le> length q \<longrightarrow>
            (\<forall>i<length (controllers h). aborted (performSearch m q h) i) \<and>
            abortControllerRef (performSearch m q h) = Some (length (controllers h)) \<and>
            \<not> aborted (performSearch m q h) (length (controllers h)))"
proof (intro conjI impI)
  have ok: "controllers_ok h" unfolding h_def by (rule controllers_ok_run)
  show "\<forall>i<length (controllers h). \<forall>j<length (controllers h).
            \<not> controllers h ! i \<and> \<not> controllers h ! j \<longrightarrow> i = j"
  proof (intro allI impI)
    fix i j
    assume "i < length (controllers h)" "j < length (controllers h)"
      "\<not> controllers h ! i \<and> \<not> controllers h ! j"
    moreover have "\<forall>i<length (controllers h).
        \<not> controllers h ! i \<longrightarrow> abortControllerRef h = Some i"
      using ok by (simp add: controllers_ok_def)
    ultimately have "abortControllerRef h = Some i" "abortControllerRef h = Some j"
      by blast+
    then show "i = j" by simp
  qed
  show "length (filter (\<lambda>r. \<not> aborted h (req_controller r)) (pending h)) \<le> 1"
  proof (cases "abortControllerRef h")
    case None
    then have "\<forall>r\<in>set (pending h). aborted h (req_controller r)"
      using ok by (auto simp: controllers_ok_def aborted_def)
    then have "filter (\<lambda>r. \<not> aborted h (req_controller r)) (pending h) = []"
      by (simp add: filter_empty_conv)
    then show ?thesis by simp
  next
    case (Some c)
    show ?thesis
    proof (rule filter_at_most_one[where f = req_controller and c = c])
      show "distinct (map req_controller (pending h))" using ok by (simp add: controllers_ok_def)
      show "\<forall>r\<in>set (pending h). \<not> aborted h (req_controller r) \<longrightarrow> req_controller r = c"
        using ok Some by (auto simp: controllers_ok_def aborted_def)
    qed
  qed
  assume long: "m \<le> length q"
  show "\<forall>i<length (controllers h). aborted (performSearch m q h) i"
    using ok abort_current_all_aborted[of h]
    by (simp add: aborted_def performSearch_long[OF long] nth_append controllers_ok_def)
  show "abortControllerRef (performSearch m q h) = Some (length (controllers h))"
    by (simp add: performSearch_long[OF long])
  show "\<not> aborted (performSearch m q h) (length (controllers h))"
    by (simp add: aborted_def performSearch_long[OF long] nth_append)
qed

text \<open>
  An instance: after two overlapping searches a third one starts.
\<close>

theorem one_live_request_witness:
  "length (pending (run 800 2 two_searches)) = 2 \<and>
   length (filter (\<lambda>r. \<not> aborted (run 800 2 two_searches) (req_controller r))
             (pending (run 800 2 two_searches))) \<le> 1 \<and>
   2 \<le> length ''reactive'' \<and>
   aborted (performSearch 2 ''reactive'' (run 800 2 two_searches)) 1 \<and>
   \<not> aborted (performSearch 2 ''reactive'' (run 800 2 two_searches)) 2"
proof -
  let ?h = "run 800 2 two_searches"
  have two: "length (pending ?h) = 2" "length (controllers ?h) = 2"
    by code_simp+
  have long: "2 \<le> length ''reactive''" by simp
  note t = one_live_request[where d = 800 and m = 2 and es = two_searches and q = "''reactive''"]
  have "length (filter (\<lambda>r. \<not> aborted ?h (req_controller r)) (pending ?h)) \<le> 1"
    using t by blast
  moreover have "\<forall>i<length (controllers ?h). aborted (performSearch 2 ''reactive'' ?h) i"
    using t long by blast
  then have "aborted (performSearch 2 ''reactive'' ?h) 1"
    using two by simp
  moreover have "\<not> aborted (performSearch 2 ''reactive'' ?h) 2"
    using t long two by simp
  ultimately show ?thesis using two long by blast
qed

subsection \<open>Request ids\<close>

lemma requests_sorted_performSearch:
  assumes "requests_sorted h"
  shows "requests_sorted (performSearch m q h)"
proof (cases "length q < m")
  case True
  then show ?thesis using assms by (simp add: requests_sorted_def performSearch_short)
next
  case False
  then have long: "m \<le> length q" by simp
  show ?thesis using assms
    by (fastforce simp: requests_sorted_def performSearch_long[OF long] sorted_wrt_append)
qed

lemma requests_sorted_fold:
  "requests_sorted h \<Longrightarrow> requests_sorted (foldl (\<lambda>h' (i, t, q). performSearch m q h') h xs)"
  by (induction xs arbitrary: h) (auto simp: requests_sorted_performSearch)

lemma requests_sorted_settle: "requests_sorted h \<Longrightarrow> requests_sorted (settle r out h)"
  unfolding requests_sorted_def
  using set_remove1_subset[of r "pending h"] by (auto simp: sorted_wrt_map_remove1)

lemma requests_sorted_step: "requests_sorted h \<Longrightarrow> requests_sorted (step d m h e)"
proof (cases e)
  case (SetQuery q)
  assume "requests_sorted h"
  then show ?thesis using SetQuery by (simp add: requests_sorted_def)
next
  case (SetQueryImmediate q)
  assume "requests_sorted h"
  then have "requests_sorted (clear_debounce (h\<lparr>state := (state h)\<lparr>st_query := q\<rparr>\<rparr>))"
    by (simp add: requests_sorted_def)
  then show ?thesis using SetQueryImmediate
    by (simp add: setQueryImmediate_def requests_sorted_performSearch)
next
  case ClearResults
  assume "requests_sorted h"
  then show ?thesis using ClearResults by (simp add: clearResults_def requests_sorted_def)
next
  case (Elapse gap)
  assume "requests_sorted h"
  then have "requests_sorted (h\<lparr>timeouts := filter (\<lambda>(i, t, q). \<not> t \<le> clock h + gap) (timeouts h),
                               clock := clock h + gap\<rparr>)"
    by (simp add: requests_sorted_def)
  then show ?thesis using Elapse by (simp add: elapse_def Let_def requests_sorted_fold)
next
  case (Settle r out)
  assume "requests_sorted h"
  then show ?thesis using Settle by (simp add: requests_sorted_settle)
next
  case Unmount
  assume "requests_sorted h"
  then show ?thesis using Unmount by (simp add: unmount_def requests_sorted_def)
qed

lemma requests_sorted_run: "requests_sorted (run d m es)"
proof (induction es rule: rev_induct)
  case Nil
  show ?case by (simp add: run_def requests_sorted_def initial_def)
next
  case (snoc e es)
  then show ?case by (simp add: run_def requests_sorted_step)
qed

lemma settle_stale:
  "req_id r \<noteq> requestIdRef h \<Longrightarrow> state (settle r out h) = state h \<and> logged (settle r out h) = logged h"
  by (simp add: settle_def Let_def split: sum.splits)

text \<open>
  Claim C2. After any history of events, a suspended call whose id is not the
  current request id changes neither the state nor what is logged when it goes on, whether
  with results or with a thrown value. The ids of the suspended calls grow in the
  order the calls started and none is above the current id, which is the id of the
  call started last: so only the most recently started request can write.
\<close>

theorem last_request_wins:
  fixes d m es r outcome
  defines "h \<equiv> run d m es"
  shows "(req_id r \<noteq> requestIdRef h \<longrightarrow>
            state (settle r outcome h) = state h \<and> logged (settle r outcome h) = logged h) \<and>
         sorted_wrt (<) (map req_id (pending h)) \<and>
         (\<forall>r'\<in>set (pending h). req_id r' \<le> requestIdRef h) \<and>
         (m \<le> length q \<longrightarrow>
            requestIdRef (performSearch m q h) = requestIdRef h + 1 \<and>
            req_id (last (pending (performSearch m q h))) = requestIdRef (performSearch m q h))"
proof (intro conjI impI)
  have ok: "requests_sorted h" unfolding h_def by (rule requests_sorted_run)
  show "sorted_wrt (<) (map req_id (pending h))" using ok by (simp add: requests_sorted_def)
  show "\<forall>r'\<in>set (pending h). req_id r' \<le> requestIdRef h"
    using ok by (simp add: requests_sorted_def)
  { assume "req_id r \<noteq> requestIdRef h"
    then show "state (settle r outcome h) = state h" "logged (settle r outcome h) = logged h"
      using settle_stale by blast+ }
  { assume long: "m \<le> length q"
    show "requestIdRef (performSearch m q h) = requestIdRef h + 1"
      "req_id (last (pending (performSearch m q h))) = requestIdRef (performSearch m q h)"
      by (simp_all add: performSearch_long[OF long]) }
qed

text \<open>
  An instance: of two overlapping searches the first one returns late, with results
  or with an error, and the state stays as it is.
\<close>

theorem last_request_wins_witness:
  "first_request \<in> set (pending (run 800 2 two_searches)) \<and>
   req_id first_request \<noteq> requestIdRef (run 800 2 two_searches) \<and>
   state (settle first_request (Inr [sample_a]) (run 800 2 two_searches))
     = state (run 800 2 two_searches) \<and>
   state (settle first_request (Inl (Error ''Failed to fetch'')) (run 800 2 two_searches))
     = state (run 800 2 two_searches) \<and>
   2 \<le> length ''reactive'' \<and>
   requestIdRef (performSearch 2 ''reactive'' (run 800 2 two_searches)) = 3"
proof -
  let ?h = "run 800 2 two_searches"
  have mem: "first_request \<in> set (pending ?h)"
    by code_simp
  have stale: "req_id first_request \<noteq> requestIdRef ?h"
    by code_simp
  have cur: "requestIdRef ?h = 2"
    by code_simp
  have long: "2 \<le> length ''reactive''" by simp
  have "state (settle first_request (Inr [sample_a]) ?h) = state ?h"
    using last_request_wins[where r = first_request and d = 800 and m = 2 and es = two_searches
        and outcome = "Inr [sample_a]"] stale
    by blast
  moreover have "state (settle first_request (Inl (Error ''Failed to fetch'')) ?h) = state ?h"
    using last_request_wins[where r = first_request and d = 800 and m = 2 and es = two_searches
        and outcome = "Inl (Error ''Failed to fetch'')"]
      stale
    by blast
  moreover have "requestIdRef (performSearch 2 ''reactive'' ?h) = 3"
    using last_request_wins[where r = first_request and d = 800 and m = 2 and es = two_searches
        and outcome = "Inr []" and q = "''reactive''"]
      long cur
    by simp
  ultimately show ?thesis using mem stale long by blast
qed

subsection \<open>Cancelled requests\<close>





section \<open>The page URL\<close>





text \<open>When the browser refuses the update, the window stays and the refusal is logged.\<close>

lemma update_url_refused:
  "win (update_url (Some e) v p) = win p \<and>
   url_log (update_url (Some e) v p)
     = url_log p @ [UrlError (case e of Error m \<Rightarrow> m | NotAnError \<Rightarrow> ''URL update failed'')]"
  by (simp add: update_url_def Let_def)



end
